theory Spec2Isabelle
  imports Main "HOL-Library.AList" "HOL-Library.Char_ord" "HOL-Library.List_Lexorder"
    "HOL-Library.Multiset"
begin

section \<open>The ingestion Lambda (src/lambda/api\_ingestion/handler.py)\<close>

subsection \<open>Python values and exceptions\<close>

text \<open>
  The secret, the events and the API payloads are JSON documents. A Python dict is an
  association list whose keys are distinct (lookups read the first binding); numbers are
  integers, which is all the handler ever inspects (\<^verbatim>\<open>len\<close>, truthiness, equality).
\<close>

datatype json = JNull | JBool bool | JInt int | JStr string
  | JList "json list" | JDict "(string \<times> json) list"

text \<open>
  Every exception the handler can meet is an \<^verbatim>\<open>Exception\<close>; the constructor tells the class
  and carries what \<^verbatim>\<open>str(e)\<close> prints (for a \<^verbatim>\<open>KeyError\<close>, the missing key).
\<close>

datatype exn = KeyError string | TypeError string | AttributeError string
  | ClientError string | RequestException string | AnalysisException string
  | OtherError string

fun str_exn :: "exn \<Rightarrow> string" where
  "str_exn (KeyError k) = [CHR 0x27] @ k @ [CHR 0x27]"
| "str_exn (TypeError m) = m"
| "str_exn (AttributeError m) = m"
| "str_exn (ClientError m) = m"
| "str_exn (RequestException m) = m"
| "str_exn (AnalysisException m) = m"
| "str_exn (OtherError m) = m"

text \<open>\<^verbatim>\<open>v[k]\<close> for a string key: a dict without the key raises \<^verbatim>\<open>KeyError\<close>, any other value
  raises \<^verbatim>\<open>TypeError\<close>.\<close>

definition subscript :: "json \<Rightarrow> string \<Rightarrow> exn + json" where
  "subscript v k =
     (case v of
        JDict kvs \<Rightarrow> (case map_of kvs k of None \<Rightarrow> Inl (KeyError k) | Some x \<Rightarrow> Inr x)
      | _ \<Rightarrow> Inl (TypeError ''indices must be integers''))"

text \<open>\<^verbatim>\<open>v.get(k, default)\<close>: only a dict has the method.\<close>

definition py_get :: "json \<Rightarrow> string \<Rightarrow> json \<Rightarrow> exn + json" where
  "py_get v k dflt =
     (case v of
        JDict kvs \<Rightarrow> Inr (case map_of kvs k of None \<Rightarrow> dflt | Some x \<Rightarrow> x)
      | _ \<Rightarrow> Inl (AttributeError ''object has no attribute get''))"

fun truthy :: "json \<Rightarrow> bool" where
  "truthy JNull = False"
| "truthy (JBool b) = b"
| "truthy (JInt i) = (i \<noteq> 0)"
| "truthy (JStr s) = (s \<noteq> [])"
| "truthy (JList xs) = (xs \<noteq> [])"
| "truthy (JDict kvs) = (kvs \<noteq> [])"

text \<open>Iteration (\<^verbatim>\<open>for x in v\<close>): a list gives its items, a dict its keys, a string its
  characters; nothing else is iterable.\<close>

fun py_iter :: "json \<Rightarrow> exn + json list" where
  "py_iter (JList xs) = Inr xs"
| "py_iter (JDict kvs) = Inr (map (\<lambda>kv. JStr (fst kv)) kvs)"
| "py_iter (JStr s) = Inr (map (\<lambda>c. JStr [c]) s)"
| "py_iter _ = Inl (TypeError ''object is not iterable'')"

fun num_of :: "json \<Rightarrow> int option" where
  "num_of (JBool b) = Some (if b then 1 else 0)"
| "num_of (JInt i) = Some i"
| "num_of _ = None"

text \<open>\<^verbatim>\<open>a == b\<close>: booleans compare as the integers 0 and 1, lists item by item, dicts
  by their bindings whatever the insertion order.\<close>

fun py_eq :: "json \<Rightarrow> json \<Rightarrow> bool" where
  "py_eq (JStr s) b = (b = JStr s)"
| "py_eq JNull b = (b = JNull)"
| "py_eq (JList xs) b = (case b of JList ys \<Rightarrow> list_all2 py_eq xs ys | _ \<Rightarrow> False)"
| "py_eq (JDict kvs) b =
     (case b of
        JDict kws \<Rightarrow> length kvs = length kws \<and>
          list_all (\<lambda>(k, v). case map_of kws k of None \<Rightarrow> False | Some w \<Rightarrow> py_eq v w) kvs
      | _ \<Rightarrow> False)"
| "py_eq a b = (num_of a \<noteq> None \<and> num_of a = num_of b)"

subsection \<open>Timestamps and their formats\<close>

record datetime =
  year :: nat
  month :: nat
  day :: nat
  hour :: nat
  minute :: nat
  second :: nat
  microsecond :: nat

fun digits :: "nat \<Rightarrow> string" where
  "digits n =
     (if n < 10 then [''0123456789'' ! n]
      else digits (n div 10) @ [''0123456789'' ! (n mod 10)])"

declare digits.simps [simp del]

text \<open>\<^verbatim>\<open>{n:0wd}\<close>: decimal, padded with zeros on the left up to width w.\<close>

definition zpad :: "nat \<Rightarrow> nat \<Rightarrow> string" where
  "zpad w n = replicate (w - length (digits n)) CHR ''0'' @ digits n"

text \<open>\<^verbatim>\<open>timestamp.isoformat()\<close>: the fraction is printed only when it is not zero.\<close>

definition isoformat :: "datetime \<Rightarrow> string" where
  "isoformat t =
     zpad 4 (year t) @ ''-'' @ zpad 2 (month t) @ ''-'' @ zpad 2 (day t) @ ''T'' @
     zpad 2 (hour t) @ '':'' @ zpad 2 (minute t) @ '':'' @ zpad 2 (second t) @
     (if microsecond t = 0 then [] else ''.'' @ zpad 6 (microsecond t))"

text \<open>\<^verbatim>\<open>timestamp.strftime('%Y%m%d_%H%M%S')\<close>, for the four-digit years \<^verbatim>\<open>utcnow\<close> returns.\<close>

definition strftime_compact :: "datetime \<Rightarrow> string" where
  "strftime_compact t =
     zpad 4 (year t) @ zpad 2 (month t) @ zpad 2 (day t) @ ''_'' @
     zpad 2 (hour t) @ zpad 2 (minute t) @ zpad 2 (second t)"

subsection \<open>The services the handler calls\<close>

text \<open>
  Secrets Manager, the HTTP endpoints and S3 are outside the program: a run is taken
  against an environment that fixes what each call answers. \<open>requests_get\<close> stands for
  \<^verbatim>\<open>requests.get(...)\<close>, \<^verbatim>\<open>raise_for_status()\<close> and \<^verbatim>\<open>response.json()\<close> together; the
  body handed to \<open>put_object\<close> is the document \<^verbatim>\<open>json.dumps\<close> serialises. \<open>str_of\<close> is
  Python's \<^verbatim>\<open>str()\<close> on a value that is not a string, as an f-string applies it.
\<close>

record aws =
  RAW_BUCKET :: string
  API_CONFIG_SECRET :: string
  get_secret_value :: "string \<Rightarrow> exn + json"
  json_loads :: "string \<Rightarrow> exn + json"
  requests_get :: "json \<Rightarrow> (string \<times> string) list \<Rightarrow> json \<Rightarrow> exn + json"
  put_object :: "string \<Rightarrow> string \<Rightarrow> json \<Rightarrow> (string \<times> json) list \<Rightarrow> exn option"
  str_of :: "json \<Rightarrow> string"

text \<open>What a run does to the outside is the sequence of calls it makes, in order.\<close>

datatype call =
    HttpGet json "(string \<times> string) list" json
  | PutObject string string json "(string \<times> json) list"

definition format_value :: "aws \<Rightarrow> json \<Rightarrow> string" where
  "format_value w v = (case v of JStr s \<Rightarrow> s | _ \<Rightarrow> str_of w v)"

subsection \<open>get\_api\_config, fetch\_api\_data, upload\_to\_s3\<close>

definition get_api_config :: "aws \<Rightarrow> exn + json" where
  "get_api_config w =
     (case get_secret_value w (API_CONFIG_SECRET w) of
        Inl e \<Rightarrow> Inl e
      | Inr response \<Rightarrow>
          (case subscript response ''SecretString'' of
             Inl e \<Rightarrow> Inl e
           | Inr (JStr s) \<Rightarrow> json_loads w s
           | Inr _ \<Rightarrow> Inl (TypeError ''the JSON object must be str, bytes or bytearray'')))"

definition fetch_api_data ::
  "aws \<Rightarrow> json \<Rightarrow> (string \<times> string) list \<Rightarrow> json \<Rightarrow> (exn + json) \<times> call list" where
  "fetch_api_data w url headers params =
     (requests_get w url headers params, [HttpGet url headers params])"

definition len_or_one :: "json \<Rightarrow> nat" where
  "len_or_one data = (case data of JList xs \<Rightarrow> length xs | _ \<Rightarrow> 1)"

definition partition_path :: "aws \<Rightarrow> json \<Rightarrow> datetime \<Rightarrow> string" where
  "partition_path w source_name t =
     format_value w source_name @ ''/'' @
     ''year='' @ digits (year t) @ ''/'' @
     ''month='' @ zpad 2 (month t) @ ''/'' @
     ''day='' @ zpad 2 (day t) @ ''/'' @
     ''hour='' @ zpad 2 (hour t) @ ''/''"

definition object_key :: "aws \<Rightarrow> json \<Rightarrow> datetime \<Rightarrow> string" where
  "object_key w source_name t =
     partition_path w source_name t @
     format_value w source_name @ ''_'' @ strftime_compact t @ ''.json''"

definition data_with_metadata :: "json \<Rightarrow> json \<Rightarrow> datetime \<Rightarrow> json" where
  "data_with_metadata data source_name t =
     JDict [(''data'', data),
            (''metadata'', JDict [(''source'', source_name),
                                  (''ingestion_time'', JStr (isoformat t)),
                                  (''record_count'', JInt (int (len_or_one data)))])]"

definition upload_to_s3 ::
  "aws \<Rightarrow> json \<Rightarrow> json \<Rightarrow> datetime \<Rightarrow> (exn + string) \<times> call list" where
  "upload_to_s3 w data source_name t =
     (let key = object_key w source_name t;
          body = data_with_metadata data source_name t;
          meta = [(''source'', source_name), (''ingestion_time'', JStr (isoformat t))]
      in (case put_object w (RAW_BUCKET w) key body meta of
            None \<Rightarrow> Inr key
          | Some e \<Rightarrow> Inl e,
          [PutObject (RAW_BUCKET w) key body meta]))"

subsection \<open>process\_source\<close>

text \<open>The entries of \<^verbatim>\<open>results\<close> and \<^verbatim>\<open>errors\<close>; the \<^verbatim>\<open>status\<close> field, a constant of
  each kind of entry, is left out.\<close>

record success =
  s_source :: json
  s_record_count :: nat
  s_s3_key :: string

record failure =
  f_source :: json
  f_message :: string

text \<open>The request headers; the source is a dict here, its name has been read.\<close>

definition build_headers :: "aws \<Rightarrow> json \<Rightarrow> exn + (string \<times> string) list" where
  "build_headers w source_config =
     (case py_get source_config ''api_key'' JNull of
        Inl e \<Rightarrow> Inl e
      | Inr k \<Rightarrow>
          if truthy k
          then Inr [(''Content-Type'', ''application/json''),
                    (''Authorization'', ''Bearer '' @ format_value w k)]
          else Inr [(''Content-Type'', ''application/json'')])"

definition process_source :: "aws \<Rightarrow> json \<Rightarrow> datetime \<Rightarrow> (exn + success) \<times> call list" where
  "process_source w source_config t =
     (case subscript source_config ''name'' of
        Inl e \<Rightarrow> (Inl e, [])
      | Inr source_name \<Rightarrow>
     (case build_headers w source_config of
        Inl e \<Rightarrow> (Inl e, [])
      | Inr headers \<Rightarrow>
     (case subscript source_config ''url'' of
        Inl e \<Rightarrow> (Inl e, [])
      | Inr url \<Rightarrow>
     (case py_get source_config ''params'' JNull of
        Inl e \<Rightarrow> (Inl e, [])
      | Inr params \<Rightarrow>
     (case fetch_api_data w url headers params of
        (Inl e, cs) \<Rightarrow> (Inl e, cs)
      | (Inr data, cs) \<Rightarrow>
     (case upload_to_s3 w data source_name t of
        (Inl e, cs') \<Rightarrow> (Inl e, cs @ cs')
      | (Inr key, cs') \<Rightarrow>
          (Inr \<lparr>s_source = source_name, s_record_count = len_or_one data, s_s3_key = key\<rparr>,
           cs @ cs')))))))"

subsection \<open>handler\<close>

text \<open>
  The \<^verbatim>\<open>for\<close> loop of the handler with its inner \<^verbatim>\<open>try\<close>. The \<^verbatim>\<open>except\<close> block reads
  \<^verbatim>\<open>source_config['name']\<close> again to build the error entry: when that raises, the exception
  leaves the loop (\<open>Inl\<close>), and the calls made so far stay made.
\<close>

fun for_sources ::
  "aws \<Rightarrow> datetime \<Rightarrow> json list \<Rightarrow> success list \<Rightarrow> failure list \<Rightarrow>
     (exn + success list \<times> failure list) \<times> call list" where
  "for_sources w t [] results errors = (Inr (results, errors), [])"
| "for_sources w t (source_config # rest) results errors =
     (case process_source w source_config t of
        (Inr result, cs) \<Rightarrow>
          (case for_sources w t rest (results @ [result]) errors of
             (out, cs') \<Rightarrow> (out, cs @ cs'))
      | (Inl e, cs) \<Rightarrow>
          (case subscript source_config ''name'' of
             Inl e' \<Rightarrow> (Inl e', cs)
           | Inr n \<Rightarrow>
               (case for_sources w t rest results
                       (errors @ [\<lparr>f_source = n, f_message = str_exn e\<rparr>]) of
                  (out, cs') \<Rightarrow> (out, cs @ cs'))))"

text \<open>The list comprehension \<^verbatim>\<open>[s for s in sources if s['name'] == wanted]\<close>.\<close>

fun filter_by_name :: "json list \<Rightarrow> json \<Rightarrow> exn + json list" where
  "filter_by_name [] wanted = Inr []"
| "filter_by_name (s # ss) wanted =
     (case subscript s ''name'' of
        Inl e \<Rightarrow> Inl e
      | Inr n \<Rightarrow>
          (case filter_by_name ss wanted of
             Inl e \<Rightarrow> Inl e
           | Inr keep \<Rightarrow> Inr (if py_eq n wanted then s # keep else keep)))"

text \<open>The sources the loop will visit: \<^verbatim>\<open>config.get('sources', [])\<close>, filtered when the
  event names a source, as the sequence the \<^verbatim>\<open>for\<close> statement iterates.\<close>

definition select_sources :: "json \<Rightarrow> json \<Rightarrow> exn + json list" where
  "select_sources config event =
     (case py_get config ''sources'' (JList []) of
        Inl e \<Rightarrow> Inl e
      | Inr sources \<Rightarrow>
          (case py_get event ''source_name'' JNull of
             Inl e \<Rightarrow> Inl e
           | Inr wanted \<Rightarrow>
               if truthy wanted
               then (case py_iter sources of
                       Inl e \<Rightarrow> Inl e
                     | Inr ss \<Rightarrow> filter_by_name ss wanted)
               else py_iter sources))"

datatype body =
    Report (timestamp: string) (total_sources: nat) (successful: nat) (failed: nat)
      (results: "success list") (errors: "failure list")
  | Fatal (error: string) (timestamp: string)

record response =
  statusCode :: int
  body :: body

definition fatal :: "exn \<Rightarrow> datetime \<Rightarrow> response" where
  "fatal e t = \<lparr>statusCode = 500, body = Fatal (str_exn e) (isoformat t)\<rparr>"

definition handler :: "aws \<Rightarrow> datetime \<Rightarrow> json \<Rightarrow> response \<times> call list" where
  "handler w t event =
     (case get_api_config w of
        Inl e \<Rightarrow> (fatal e t, [])
      | Inr config \<Rightarrow>
          (case select_sources config event of
             Inl e \<Rightarrow> (fatal e t, [])
           | Inr sources \<Rightarrow>
               (case for_sources w t sources [] [] of
                  (Inl e, cs) \<Rightarrow> (fatal e t, cs)
                | (Inr (rs, es), cs) \<Rightarrow>
                    (\<lparr>statusCode = (if es = [] then 200 else 207),
                      body = Report (isoformat t) (length sources) (length rs) (length es)
                               rs es\<rparr>,
                     cs))))"

section \<open>The Glue job (src/glue/jobs/raw\_to\_processed.py)\<close>

subsection \<open>DataFrames\<close>

text \<open>
  A DataFrame is a schema and rows; a row binds each column name to its value, in the
  schema's order. Column names are matched as written. Values of a column are of the
  column's type or null; timestamps are microseconds since the epoch, as Spark keeps them.
\<close>

datatype dtype = StringType | IntegerType | LongType | BooleanType | TimestampType

datatype val = Null | BoolV bool | IntV int | StrV string | TsV int

type_synonym row = "(string \<times> val) list"

record dataframe =
  schema :: "(string \<times> dtype) list"
  rows :: "row list"

definition columns :: "dataframe \<Rightarrow> string list" where
  "columns df = map fst (schema df)"

definition cell :: "row \<Rightarrow> string \<Rightarrow> val" where
  "cell r c = (case map_of r c of None \<Rightarrow> Null | Some v \<Rightarrow> v)"

text \<open>
  What \<^verbatim>\<open>str(f.dataType)\<close> prints is the library's choice: PySpark up to 3.2 prints the
  bare class name (\<open>type_name\<close>), PySpark from 3.3 on prints the class name followed by
  a pair of parentheses (\<open>type_name_parens\<close>). The job compares it with
  \<^verbatim>\<open>'StringType'\<close>.
\<close>

fun type_name :: "dtype \<Rightarrow> string" where
  "type_name StringType = ''StringType''"
| "type_name IntegerType = ''IntegerType''"
| "type_name LongType = ''LongType''"
| "type_name BooleanType = ''BooleanType''"
| "type_name TimestampType = ''TimestampType''"

definition type_name_parens :: "dtype \<Rightarrow> string" where
  "type_name_parens ty = type_name ty @ ''()''"

text \<open>\<^verbatim>\<open>df.withColumn(c, e)\<close> replaces the column c where it stands, or appends it;
  \<^verbatim>\<open>df.drop(c)\<close> removes it, and is silent when there is none.\<close>

definition withColumn :: "string \<Rightarrow> dtype \<Rightarrow> (row \<Rightarrow> val) \<Rightarrow> dataframe \<Rightarrow> dataframe" where
  "withColumn c ty e df =
     \<lparr>schema = AList.update c ty (schema df),
      rows = map (\<lambda>r. AList.update c (e r) r) (rows df)\<rparr>"

definition drop_column :: "string \<Rightarrow> dataframe \<Rightarrow> dataframe" where
  "drop_column c df =
     \<lparr>schema = AList.delete c (schema df), rows = map (AList.delete c) (rows df)\<rparr>"

definition where_rows :: "(row \<Rightarrow> bool) \<Rightarrow> dataframe \<Rightarrow> dataframe" where
  "where_rows p df = \<lparr>schema = schema df, rows = filter p (rows df)\<rparr>"

text \<open>
  The order of a column's values: null below everything (so that a descending sort puts
  nulls last), then by content. Values of different types never meet in one column; the
  last equation only makes the order total.
\<close>

fun rank :: "val \<Rightarrow> nat" where
  "rank Null = 0"
| "rank (BoolV b) = 1"
| "rank (IntV i) = 2"
| "rank (StrV s) = 3"
| "rank (TsV t) = 4"

fun val_less :: "val \<Rightarrow> val \<Rightarrow> bool" where
  "val_less (BoolV a) (BoolV b) = (a < b)"
| "val_less (IntV a) (IntV b) = (a < b)"
| "val_less (StrV a) (StrV b) = (a < b)"
| "val_less (TsV a) (TsV b) = (a < b)"
| "val_less a b = (rank a < rank b)"

subsection \<open>The engine and the job's surroundings\<close>

text \<open>
  What Spark and Glue decide, not the job. A DataFrame has no row order of its own:
  \<open>exchange\<close> is the order in which the shuffle of a window hands the rows over, some
  arrangement of the same rows. \<open>date_of_timestamp\<close> and \<open>date_of_string\<close> are the
  casts to a date \<^verbatim>\<open>F.year\<close>, \<^verbatim>\<open>F.month\<close> and \<^verbatim>\<open>F.dayofmonth\<close> apply (a string that is
  no date gives null). \<open>str_dataType\<close> is \<^verbatim>\<open>str\<close> of a column type, as the installed
  PySpark prints it.
\<close>

record spark =
  exchange :: "row list \<Rightarrow> row list"
  str_dataType :: "dtype \<Rightarrow> string"
  date_of_timestamp :: "int \<Rightarrow> int \<times> int \<times> int"
  date_of_string :: "string \<Rightarrow> (int \<times> int \<times> int) option"
  current_timestamp :: int
  input_file_name :: "row \<Rightarrow> string"
  utcnow :: datetime
  from_catalog :: "string \<Rightarrow> string \<Rightarrow> exn + dataframe"
  write_dynamic_frame :: "string \<Rightarrow> string list \<Rightarrow> dataframe \<Rightarrow> exn option"

record job_args =
  source_database :: string
  source_table :: string
  target_bucket :: string
  target_prefix :: string
  JOB_RUN_ID :: "string option"

subsection \<open>clean\_data\<close>

text \<open>
  \<^verbatim>\<open>F.row_number().over(Window.partitionBy('id').orderBy(F.desc('timestamp')))\<close>.
  Row j stands before row i in i's window partition when both have the same id and j has
  the later timestamp, or the same timestamp and came first out of the exchange: the
  window orders by the timestamp alone. The row number of i is one more than the number
  of rows before it.
\<close>

definition precedes :: "row list \<Rightarrow> nat \<Rightarrow> nat \<Rightarrow> bool" where
  "precedes rs j i \<longleftrightarrow>
     cell (rs ! j) ''id'' = cell (rs ! i) ''id'' \<and>
     (val_less (cell (rs ! i) ''timestamp'') (cell (rs ! j) ''timestamp'') \<or>
      cell (rs ! j) ''timestamp'' = cell (rs ! i) ''timestamp'' \<and> j < i)"

definition row_number :: "row list \<Rightarrow> nat \<Rightarrow> nat" where
  "row_number rs i = Suc (length (filter (\<lambda>j. precedes rs j i) [0..<length rs]))"

definition with_row_num :: "spark \<Rightarrow> dataframe \<Rightarrow> dataframe" where
  "with_row_num e df =
     (let rs = exchange e (rows df)
      in \<lparr>schema = AList.update ''row_num'' IntegerType (schema df),
          rows = map (\<lambda>i. AList.update ''row_num'' (IntV (int (row_number rs i))) (rs ! i))
                   [0..<length rs]\<rparr>)"

text \<open>Lines 63-71: drop duplicates on the primary key, keeping the first row of each
  window partition.\<close>

definition drop_duplicates :: "spark \<Rightarrow> dataframe \<Rightarrow> dataframe" where
  "drop_duplicates e df =
     (if ''id'' \<in> set (columns df) \<and> ''timestamp'' \<in> set (columns df)
      then drop_column ''row_num''
             (where_rows (\<lambda>r. cell r ''row_num'' = IntV 1) (with_row_num e df))
      else df)"

text \<open>\<^verbatim>\<open>F.trim\<close> removes the space characters at both ends of a string; null stays null.\<close>

definition trim :: "string \<Rightarrow> string" where
  "trim s = rev (dropWhile (\<lambda>c. c = CHR '' '') (rev (dropWhile (\<lambda>c. c = CHR '' '') s)))"

fun trim_val :: "val \<Rightarrow> val" where
  "trim_val (StrV s) = StrV (trim s)"
| "trim_val v = v"

text \<open>Line 74: the names of the fields whose type prints as \<^verbatim>\<open>'StringType'\<close>.\<close>

definition string_cols :: "spark \<Rightarrow> dataframe \<Rightarrow> string list" where
  "string_cols e df =
     map fst (filter (\<lambda>f. str_dataType e (snd f) = ''StringType'') (schema df))"

text \<open>Lines 75-76: the loop over the string columns of the frame as it was read;
  \<^verbatim>\<open>F.col\<close> of a column the cleaned frame does not have is an analysis error.\<close>

fun trim_columns :: "string list \<Rightarrow> dataframe \<Rightarrow> exn + dataframe" where
  "trim_columns [] cleaned = Inr cleaned"
| "trim_columns (col_name # cs) cleaned =
     (if col_name \<in> set (columns cleaned)
      then trim_columns cs
             (withColumn col_name StringType (\<lambda>r. trim_val (cell r col_name)) cleaned)
      else Inl (AnalysisException col_name))"

text \<open>\<^verbatim>\<open>cleaned.na.drop(subset=['id'])\<close>.\<close>

definition na_drop_id :: "dataframe \<Rightarrow> exn + dataframe" where
  "na_drop_id cleaned =
     (if ''id'' \<in> set (columns cleaned)
      then Inr (where_rows (\<lambda>r. cell r ''id'' \<noteq> Null) cleaned)
      else Inl (AnalysisException ''id''))"

definition clean_data :: "spark \<Rightarrow> dataframe \<Rightarrow> exn + dataframe" where
  "clean_data e df =
     (case trim_columns (string_cols e df) (drop_duplicates e df) of
        Inl x \<Rightarrow> Inl x
      | Inr cleaned \<Rightarrow>
          if ''id'' \<in> set (columns df) then na_drop_id cleaned else Inr cleaned)"

subsection \<open>add\_audit\_columns, add\_partitions, write\_processed\_data, main\<close>

definition add_audit_columns :: "spark \<Rightarrow> job_args \<Rightarrow> dataframe \<Rightarrow> dataframe" where
  "add_audit_columns e args df =
     withColumn ''_job_run_id'' StringType
       (\<lambda>r. StrV (case JOB_RUN_ID args of Some i \<Rightarrow> i | None \<Rightarrow> ''local''))
       (withColumn ''_source_file'' StringType (\<lambda>r. StrV (input_file_name e r))
          (withColumn ''_processed_at'' TimestampType (\<lambda>r. TsV (current_timestamp e)) df))"

text \<open>The date of a timestamp cell; null when the cell is null or no date.\<close>

definition date_of :: "spark \<Rightarrow> val \<Rightarrow> (int \<times> int \<times> int) option" where
  "date_of e v =
     (case v of
        TsV t \<Rightarrow> Some (date_of_timestamp e t)
      | StrV s \<Rightarrow> date_of_string e s
      | _ \<Rightarrow> None)"

definition year_of :: "spark \<Rightarrow> val \<Rightarrow> val" where
  "year_of e v = (case date_of e v of None \<Rightarrow> Null | Some (y, m, d) \<Rightarrow> IntV y)"

definition month_of :: "spark \<Rightarrow> val \<Rightarrow> val" where
  "month_of e v = (case date_of e v of None \<Rightarrow> Null | Some (y, m, d) \<Rightarrow> IntV m)"

definition dayofmonth_of :: "spark \<Rightarrow> val \<Rightarrow> val" where
  "dayofmonth_of e v = (case date_of e v of None \<Rightarrow> Null | Some (y, m, d) \<Rightarrow> IntV d)"

text \<open>
  The branch is taken on the schema, once for the frame. With a timestamp column every
  row's triple is computed from that row's cell; the date functions accept a timestamp
  or a string column and are an analysis error on any other type.
\<close>

definition add_partitions :: "spark \<Rightarrow> dataframe \<Rightarrow> exn + dataframe" where
  "add_partitions e df =
     (if ''timestamp'' \<in> set (columns df)
      then (if map_of (schema df) ''timestamp'' \<in> {Some TimestampType, Some StringType}
            then Inr (withColumn ''day'' IntegerType (\<lambda>r. dayofmonth_of e (cell r ''timestamp''))
                     (withColumn ''month'' IntegerType (\<lambda>r. month_of e (cell r ''timestamp''))
                     (withColumn ''year'' IntegerType (\<lambda>r. year_of e (cell r ''timestamp''))
                        df)))
            else Inl (AnalysisException ''timestamp''))
      else (let now = utcnow e
            in Inr (withColumn ''day'' IntegerType (\<lambda>r. IntV (int (day now)))
                   (withColumn ''month'' IntegerType (\<lambda>r. IntV (int (month now)))
                   (withColumn ''year'' IntegerType (\<lambda>r. IntV (int (year now)))
                      df)))))"

definition output_path :: "job_args \<Rightarrow> string" where
  "output_path args = ''s3://'' @ target_bucket args @ ''/'' @ target_prefix args"

text \<open>The write, then \<^verbatim>\<open>df.count()\<close>. The frame is evaluated once: the count is of
  the frame that was handed to the writer.\<close>

definition write_processed_data :: "spark \<Rightarrow> job_args \<Rightarrow> dataframe \<Rightarrow> exn + nat" where
  "write_processed_data e args df =
     (case write_dynamic_frame e (output_path args) [''year'', ''month'', ''day''] df of
        Some x \<Rightarrow> Inl x
      | None \<Rightarrow> Inr (length (rows df)))"

text \<open>A finished run: the two counts it prints (\<^verbatim>\<open>Read n raw records\<close>,
  \<^verbatim>\<open>Processed n records\<close>) and the frame it handed to the writer.\<close>

record job_run =
  raw_count :: nat
  written :: dataframe
  row_count :: nat

definition main :: "spark \<Rightarrow> job_args \<Rightarrow> exn + job_run" where
  "main e args =
     (case from_catalog e (source_database args) (source_table args) of
        Inl x \<Rightarrow> Inl x
      | Inr raw_df \<Rightarrow>
     (case clean_data e raw_df of
        Inl x \<Rightarrow> Inl x
      | Inr cleaned_df \<Rightarrow>
     (case add_partitions e (add_audit_columns e args cleaned_df) of
        Inl x \<Rightarrow> Inl x
      | Inr with_partitions \<Rightarrow>
     (case write_processed_data e args with_partitions of
        Inl x \<Rightarrow> Inl x
      | Inr n \<Rightarrow>
          Inr \<lparr>raw_count = length (rows raw_df), written = with_partitions,
               row_count = n\<rparr>))))"

section \<open>Reading the loop's result\<close>

text \<open>What one source contributes to the report: its entry in \<^verbatim>\<open>results\<close> when
  \<open>process_source\<close> returns, its entry in \<^verbatim>\<open>errors\<close> when it raises and the source has
  a name.\<close>

definition landed :: "aws \<Rightarrow> datetime \<Rightarrow> json \<Rightarrow> success list" where
  "landed w t s = (case fst (process_source w s t) of Inr r \<Rightarrow> [r] | Inl e \<Rightarrow> [])"

definition refused :: "aws \<Rightarrow> datetime \<Rightarrow> json \<Rightarrow> failure list" where
  "refused w t s =
     (case fst (process_source w s t) of
        Inr r \<Rightarrow> []
      | Inl e \<Rightarrow> (case subscript s ''name'' of
                   Inr n \<Rightarrow> [\<lparr>f_source = n, f_message = str_exn e\<rparr>]
                 | Inl e' \<Rightarrow> []))"

section \<open>Sample inputs\<close>

text \<open>Three sources a, b and c; the endpoint of b answers with a server error.\<close>

definition api :: "string \<Rightarrow> json" where
  "api n = JDict [(''name'', JStr n), (''url'', JStr (''https://'' @ n))]"

definition example_config :: json where
  "example_config = JDict [(''sources'', JList [api ''a'', api ''b'', api ''c''])]"

definition example_aws :: aws where
  "example_aws =
     \<lparr>RAW_BUCKET = ''data-lake-raw'',
      API_CONFIG_SECRET = ''api-ingestion-config'',
      get_secret_value = (\<lambda>i. Inr (JDict [(''SecretString'', JStr ''{...}'')])),
      json_loads = (\<lambda>s. Inr example_config),
      requests_get = (\<lambda>url headers params.
         if url = JStr ''https://b'' then Inl (RequestException ''503 Server Error'')
         else Inr (JList [JDict [(''id'', JInt 1)]])),
      put_object = (\<lambda>bucket key body meta. None),
      str_of = (\<lambda>v. ''?'')\<rparr>"

definition noon :: datetime where
  "noon = \<lparr>year = 2024, month = 3, day = 15, hour = 12, minute = 0, second = 0,
            microsecond = 0\<rparr>"

text \<open>The same sources, the second one written without its name.\<close>

definition nameless_config :: json where
  "nameless_config =
     JDict [(''sources'',
             JList [api ''a'', JDict [(''url'', JStr ''https://b'')], api ''c''])]"

definition nameless_aws :: aws where
  "nameless_aws = example_aws\<lparr>json_loads := (\<lambda>s. Inr nameless_config)\<rparr>"

text \<open>Secrets Manager refuses the read.\<close>

definition locked_aws :: aws where
  "locked_aws =
     example_aws\<lparr>get_secret_value := (\<lambda>i. Inl (ClientError ''AccessDeniedException''))\<rparr>"

section \<open>Reading the window\<close>

text \<open>The positions, in the order of the exchange, of the rows numbered 1.\<close>

definition survivors :: "row list \<Rightarrow> nat list" where
  "survivors rs = filter (\<lambda>i. row_number rs i = 1) [0..<length rs]"


section \<open>Sample frames and engines\<close>

text \<open>An engine whose exchange hands the rows over as they stand, and one whose
  exchange hands them over in the opposite order; both print a type as its bare class
  name. Every timestamp of the samples falls on 15 March 2024.\<close>

definition example_spark :: spark where
  "example_spark =
     \<lparr>exchange = (\<lambda>rs. rs),
      str_dataType = type_name,
      date_of_timestamp = (\<lambda>t. (2024, 3, 15)),
      date_of_string = (\<lambda>s. None),
      current_timestamp = 1710504000000000,
      input_file_name = (\<lambda>r. []),
      utcnow = noon,
      from_catalog = (\<lambda>db tbl. Inl (AnalysisException ''Table or view not found'')),
      write_dynamic_frame = (\<lambda>path keys df. None)\<rparr>"

definition reversing_spark :: spark where
  "reversing_spark = example_spark\<lparr>exchange := rev\<rparr>"

text \<open>The same engine under a PySpark that prints a type with its parentheses.\<close>

definition newer_spark :: spark where
  "newer_spark = example_spark\<lparr>str_dataType := type_name_parens\<rparr>"

definition record_of :: "val \<Rightarrow> int \<Rightarrow> string \<Rightarrow> row" where
  "record_of i t n = [(''id'', i), (''timestamp'', TsV t), (''name'', StrV n)]"

definition event_schema :: "(string \<times> dtype) list" where
  "event_schema = [(''id'', LongType), (''timestamp'', TimestampType), (''name'', StringType)]"

text \<open>Two records with the same id and the same timestamp.\<close>

definition tied :: dataframe where
  "tied = \<lparr>schema = event_schema,
            rows = [record_of (IntV 1) 1710496800000000 ''first'',
                    record_of (IntV 1) 1710496800000000 ''second'']\<rparr>"

text \<open>A frame without a timestamp column.\<close>

definition unstamped :: dataframe where
  "unstamped = \<lparr>schema = [(''id'', LongType), (''name'', StringType)],
                 rows = [[(''id'', IntV 1), (''name'', StrV ''  abc  '')],
                         [(''id'', IntV 1), (''name'', StrV ''abc'')],
                         [(''id'', Null), (''name'', StrV ''x'')]]\<rparr>"


text \<open>A frame whose only record has no timestamp value.\<close>

definition undated :: dataframe where
  "undated = \<lparr>schema = event_schema,
               rows = [[(''id'', IntV 7), (''timestamp'', Null), (''name'', StrV ''late'')]]\<rparr>"

text \<open>Ten raw records: two share the id 3, one has no id.\<close>

definition ten_records :: dataframe where
  "ten_records =
     \<lparr>schema = event_schema,
      rows = [record_of (IntV 1) 1710496800000000 ''a'',
              record_of (IntV 2) 1710496800000000 ''b'',
              record_of (IntV 3) 1710496800000000 ''c'',
              record_of (IntV 3) 1710496860000000 ''c again'',
              record_of Null 1710496800000000 ''d'',
              record_of (IntV 4) 1710496800000000 ''e'',
              record_of (IntV 5) 1710496800000000 ''f'',
              record_of (IntV 6) 1710496800000000 ''g'',
              record_of (IntV 7) 1710496800000000 ''h'',
              record_of (IntV 8) 1710496800000000 ''i'']\<rparr>"

definition catalog_spark :: spark where
  "catalog_spark = example_spark\<lparr>from_catalog := (\<lambda>db tbl. Inr ten_records)\<rparr>"

definition example_args :: job_args where
  "example_args =
     \<lparr>source_database = ''raw'', source_table = ''events'',
      target_bucket = ''data-lake-processed'', target_prefix = ''events'',
      JOB_RUN_ID = None\<rparr>"

section \<open>Properties of the ingestion Lambda\<close>

subsection \<open>The loop over the sources\<close>

lemma for_sources_count:
  "for_sources w t ss rs es = (Inr (rs', es'), cs) \<Longrightarrow>
     length rs' + length es' = length rs + length es + length ss"
proof (induction ss arbitrary: rs es cs)
  case Nil
  then show ?case by simp
next
  case (Cons s ss)
  then show ?case
    by (auto split: prod.splits sum.splits)
qed

lemma for_sources_named:
  "\<forall>s\<in>set ss. \<exists>n. subscript s ''name'' = Inr n \<Longrightarrow>
     for_sources w t ss rs es =
       (Inr (rs @ concat (map (landed w t) ss), es @ concat (map (refused w t) ss)),
        concat (map (\<lambda>s. snd (process_source w s t)) ss))"
proof (induction ss arbitrary: rs es)
  case Nil
  then show ?case by simp
next
  case (Cons s ss)
  then show ?case
    by (cases "process_source w s t") (auto simp: landed_def refused_def split: sum.splits)
qed

lemma for_sources_unnamed:
  assumes "\<forall>s\<in>set pre. \<exists>n. subscript s ''name'' = Inr n"
    and "subscript sc ''name'' = Inl e"
  shows "for_sources w t (pre @ sc # post) rs es =
       (Inl e, concat (map (\<lambda>s. snd (process_source w s t)) pre))"
  using assms
proof (induction pre arbitrary: rs es)
  case Nil
  then show ?case by (simp add: process_source_def)
next
  case (Cons s pre)
  then show ?case
    by (cases "process_source w s t") (auto split: sum.splits)
qed

lemma others_nth:
  assumes "s \<in> set (take k xs @ drop (Suc k) xs)"
  shows "\<exists>i<length xs. i \<noteq> k \<and> s = xs ! i"
proof -
  from assms consider "s \<in> set (take k xs)" | "s \<in> set (drop (Suc k) xs)" by auto
  then show ?thesis
  proof cases
    case 1
    then obtain i where "i < length (take k xs)" "s = take k xs ! i"
      by (auto simp: in_set_conv_nth)
    then have "i < length xs" "i \<noteq> k" "s = xs ! i" by simp_all
    then show ?thesis by blast
  next
    case 2
    then obtain i where i: "i < length (drop (Suc k) xs)" "s = drop (Suc k) xs ! i"
      by (auto simp: in_set_conv_nth)
    then have "Suc k + i < length xs" "Suc k + i \<noteq> k" "s = xs ! (Suc k + i)" by simp_all
    then show ?thesis by blast
  qed
qed


lemma fetch_failure_fails_source:
  assumes "subscript sc ''name'' = Inr n" and "build_headers w sc = Inr hs"
    and "subscript sc ''url'' = Inr u" and "py_get sc ''params'' JNull = Inr ps"
    and "requests_get w u hs ps = Inl e"
  shows "process_source w sc t = (Inl e, [HttpGet u hs ps])"
  using assms by (simp add: process_source_def fetch_api_data_def)

lemma process_source_named:
  "fst (process_source w s t) = Inr r \<Longrightarrow> \<exists>n. subscript s ''name'' = Inr n"
  by (cases "subscript s ''name''") (simp_all add: process_source_def)

lemma landed_all:
  "\<forall>s\<in>set xs. \<exists>r. fst (process_source w s t) = Inr r \<Longrightarrow>
     map Inr (concat (map (landed w t) xs)) = map (\<lambda>s. fst (process_source w s t)) xs \<and>
     length (concat (map (landed w t) xs)) = length xs \<and>
     concat (map (refused w t) xs) = []"
  by (induction xs) (auto simp: landed_def refused_def)



lemma set_without_nth:
  "k < length xs \<Longrightarrow> set xs = insert (xs ! k) (set (take k xs @ drop (Suc k) xs))"
proof -
  assume "k < length xs"
  then have "xs = take k xs @ xs ! k # drop (Suc k) xs"
    by (rule id_take_nth_drop)
  then have "set xs = set (take k xs @ xs ! k # drop (Suc k) xs)"
    by (rule arg_cong)
  then show ?thesis by simp
qed

lemma concat_map_without_nth:
  "k < length xs \<Longrightarrow>
     concat (map f xs) =
       concat (map f (take k xs)) @ f (xs ! k) @ concat (map f (drop (Suc k) xs))"
proof -
  assume "k < length xs"
  then have "xs = take k xs @ xs ! k # drop (Suc k) xs"
    by (rule id_take_nth_drop)
  then have "concat (map f xs) = concat (map f (take k xs @ xs ! k # drop (Suc k) xs))"
    by (rule arg_cong)
  then show ?thesis by simp
qed

subsection \<open>The sample run\<close>

lemma example_get_api_config: "get_api_config example_aws = Inr example_config"
  by (simp add: get_api_config_def example_aws_def subscript_def)

lemma example_select_all:
  "select_sources example_config (JDict []) = Inr [api ''a'', api ''b'', api ''c'']"
  by (simp add: select_sources_def example_config_def py_get_def)

lemma example_process_b:
  "fst (process_source example_aws (api ''b'') t) = Inl (RequestException ''503 Server Error'')"
  by (simp add: process_source_def api_def subscript_def build_headers_def py_get_def
      fetch_api_data_def example_aws_def)

lemma example_process_ok:
  "n \<noteq> ''b'' \<Longrightarrow> \<exists>r. fst (process_source example_aws (api n) t) = Inr r"
  by (simp add: process_source_def api_def subscript_def build_headers_def py_get_def
      fetch_api_data_def upload_to_s3_def example_aws_def Let_def)

lemma example_for_sources:
  "for_sources example_aws noon [api ''a'', api ''b'', api ''c''] [] [] =
     (Inr ([\<lparr>s_source = JStr ''a'', s_record_count = 1,
              s_s3_key = object_key example_aws (JStr ''a'') noon\<rparr>,
            \<lparr>s_source = JStr ''c'', s_record_count = 1,
              s_s3_key = object_key example_aws (JStr ''c'') noon\<rparr>],
           [\<lparr>f_source = JStr ''b'', f_message = ''503 Server Error''\<rparr>]),
      snd (process_source example_aws (api ''a'') noon) @
      snd (process_source example_aws (api ''b'') noon) @
      snd (process_source example_aws (api ''c'') noon))"
  by (simp add: process_source_def api_def subscript_def build_headers_def py_get_def
      fetch_api_data_def upload_to_s3_def example_aws_def Let_def len_or_one_def)

lemma example_run:
  "fst (handler example_aws noon (JDict [])) =
     \<lparr>statusCode = 207,
      body = Report (isoformat noon) 3 2 1
        [\<lparr>s_source = JStr ''a'', s_record_count = 1,
           s_s3_key = object_key example_aws (JStr ''a'') noon\<rparr>,
         \<lparr>s_source = JStr ''c'', s_record_count = 1,
           s_s3_key = object_key example_aws (JStr ''c'') noon\<rparr>]
        [\<lparr>f_source = JStr ''b'', f_message = ''503 Server Error''\<rparr>]\<rparr>"
  by (simp add: handler_def example_get_api_config example_select_all example_for_sources
      del: for_sources.simps)

lemma example_object_key:
  "object_key example_aws (JStr ''a'') noon =
     ''a/year=2024/month=03/day=15/hour=12/a_20240315_120000.json''"
  by (simp add: object_key_def partition_path_def format_value_def noon_def zpad_def
      strftime_compact_def digits.simps)

lemma nameless_get_api_config: "get_api_config nameless_aws = Inr nameless_config"
  by (simp add: get_api_config_def nameless_aws_def example_aws_def subscript_def)

lemma nameless_select_all:
  "select_sources nameless_config (JDict []) =
     Inr ([api ''a''] @ JDict [(''url'', JStr ''https://b'')] # [api ''c''])"
  by (simp add: select_sources_def nameless_config_def py_get_def)

lemma locked_get_api_config:
  "get_api_config locked_aws = Inl (ClientError ''AccessDeniedException'')"
  by (simp add: get_api_config_def locked_aws_def example_aws_def)

section \<open>Claims about the ingestion Lambda\<close>

text \<open>
  Claim C1. In a run over the selected sources in which one source fails (its fetch
  raises, say) and every other source is processed to the end, the handler still
  processes every source: the calls of the run are the calls of all the sources in order,
  the report counts all of them in \<^verbatim>\<open>total_sources\<close>, \<^verbatim>\<open>results\<close> holds the result of each
  source but the failing one, and \<^verbatim>\<open>errors\<close> holds one entry, which names the failing
  source. The failing source is one whose name can be read; a source whose fetch raises
  fails in this way (\<open>fetch_failure_fails_source\<close>).
\<close>

theorem one_failure_is_contained:
  assumes "get_api_config w = Inr config"
    and "select_sources config event = Inr sources"
    and "k < length sources"
    and "subscript (sources ! k) ''name'' = Inr n"
    and "fst (process_source w (sources ! k) t) = Inl e"
    and "\<forall>i<length sources. i \<noteq> k \<longrightarrow> (\<exists>r. fst (process_source w (sources ! i) t) = Inr r)"
  shows "\<exists>rs. handler w t event =
           (\<lparr>statusCode = 207,
             body = Report (isoformat t) (length sources) (length sources - 1) 1 rs
                      [\<lparr>f_source = n, f_message = str_exn e\<rparr>]\<rparr>,
            concat (map (\<lambda>s. snd (process_source w s t)) sources))
         \<and> map Inr rs =
             map (\<lambda>s. fst (process_source w s t)) (take k sources @ drop (Suc k) sources)"
proof -
  define others where "others = take k sources @ drop (Suc k) sources"
  define rs where "rs = concat (map (landed w t) others)"
  define err where "err = \<lparr>f_source = n, f_message = str_exn e\<rparr>"
  have good: "\<forall>s\<in>set others. \<exists>r. fst (process_source w s t) = Inr r"
  proof
    fix s assume "s \<in> set others"
    then have "s \<in> set (take k sources @ drop (Suc k) sources)"
      by (simp only: others_def)
    then have "\<exists>i<length sources. i \<noteq> k \<and> s = sources ! i"
      by (rule others_nth)
    then obtain i where i: "i < length sources" "i \<noteq> k" and s: "s = sources ! i"
      by (elim exE conjE)
    from assms(6) i have "\<exists>r. fst (process_source w (sources ! i) t) = Inr r"
      by simp
    then show "\<exists>r. fst (process_source w s t) = Inr r"
      by (simp only: s)
  qed
  have named: "\<forall>s\<in>set sources. \<exists>n. subscript s ''name'' = Inr n"
  proof
    fix s assume "s \<in> set sources"
    then have "s = sources ! k \<or> s \<in> set others"
      unfolding others_def using set_without_nth [OF assms(3)] by simp
    then show "\<exists>n. subscript s ''name'' = Inr n"
    proof
      assume "s = sources ! k"
      with assms(4) show ?thesis by simp
    next
      assume "s \<in> set others"
      with good obtain r where "fst (process_source w s t) = Inr r" by auto
      then show ?thesis by (rule process_source_named)
    qed
  qed
  note all = landed_all [OF good]
  have all1: "map Inr rs = map (\<lambda>s. fst (process_source w s t)) others"
    unfolding rs_def using all by (rule conjunct1)
  have all2: "length rs = length others"
    unfolding rs_def using all by simp
  have all3: "concat (map (refused w t) others) = []"
    using all by simp
  have at_k: "landed w t (sources ! k) = []" "refused w t (sources ! k) = [err]"
    using assms(4,5) by (simp_all add: landed_def refused_def err_def)
  have ls: "concat (map (landed w t) sources) = rs"
    unfolding rs_def others_def
    by (simp add: concat_map_without_nth [OF assms(3)] at_k(1))
  have "concat (map (refused w t) sources) =
      concat (map (refused w t) (take k sources)) @ [err] @
      concat (map (refused w t) (drop (Suc k) sources))"
    by (simp only: concat_map_without_nth [OF assms(3)] at_k(2))
  moreover have "concat (map (refused w t) (take k sources)) = []"
    "concat (map (refused w t) (drop (Suc k) sources)) = []"
    using all3 unfolding others_def by simp_all
  ultimately have rf: "concat (map (refused w t) sources) = [err]"
    by simp
  have len: "length rs = length sources - 1"
    using all2 assms(3) unfolding others_def by simp
  have loop: "for_sources w t sources [] [] =
      (Inr (rs, [err]), concat (map (\<lambda>s. snd (process_source w s t)) sources))"
    using for_sources_named [OF named, of w t "[]" "[]"] by (simp only: ls rf append_Nil)
  have run: "handler w t event =
           (\<lparr>statusCode = 207,
             body = Report (isoformat t) (length sources) (length sources - 1) 1 rs [err]\<rparr>,
            concat (map (\<lambda>s. snd (process_source w s t)) sources))"
    by (simp add: handler_def assms(1,2) loop len)
  show ?thesis
  proof (intro exI conjI)
    show "handler w t event =
           (\<lparr>statusCode = 207,
             body = Report (isoformat t) (length sources) (length sources - 1) 1 rs
                      [\<lparr>f_source = n, f_message = str_exn e\<rparr>]\<rparr>,
            concat (map (\<lambda>s. snd (process_source w s t)) sources))"
      using run by (simp only: err_def)
    show "map Inr rs =
        map (\<lambda>s. fst (process_source w s t)) (take k sources @ drop (Suc k) sources)"
      using all1 by (simp only: others_def)
  qed
qed


theorem one_failure_is_contained_witness:
  "\<exists>rs. handler example_aws noon (JDict []) =
     (\<lparr>statusCode = 207,
       body = Report (isoformat noon) 3 2 1 rs
                [\<lparr>f_source = JStr ''b'', f_message = ''503 Server Error''\<rparr>]\<rparr>,
      concat (map (\<lambda>s. snd (process_source example_aws s noon))
                [api ''a'', api ''b'', api ''c'']))
     \<and> map Inr rs =
         [fst (process_source example_aws (api ''a'') noon),
          fst (process_source example_aws (api ''c'') noon)]"
proof -
  let ?ss = "[api ''a'', api ''b'', api ''c'']"
  have ok: "\<forall>i<length ?ss. i \<noteq> 1 \<longrightarrow>
      (\<exists>r. fst (process_source example_aws (?ss ! i) noon) = Inr r)"
  proof (intro allI impI)
    fix i assume "i < length ?ss" "i \<noteq> 1"
    then have "i = 0 \<or> i = 2" by auto
    then show "\<exists>r. fst (process_source example_aws (?ss ! i) noon) = Inr r"
      using example_process_ok [of "''a''" noon] example_process_ok [of "''c''" noon]
      by auto
  qed
  have k: "1 < length ?ss" by simp
  have nm: "subscript (?ss ! 1) ''name'' = Inr (JStr ''b'')"
    by (simp add: api_def subscript_def)
  have bad: "fst (process_source example_aws (?ss ! 1) noon) =
      Inl (RequestException ''503 Server Error'')"
    using example_process_b [of noon] by simp
  show ?thesis
    using one_failure_is_contained
      [OF example_get_api_config example_select_all k nm bad ok]
    by (simp add: numeral_3_eq_3 numeral_2_eq_2)
qed

text \<open>
  Claim C6. The status code of the response has three values: 200 exactly for a report
  whose \<^verbatim>\<open>errors\<close> is empty, 207 exactly for a report with an error entry, and 500 exactly
  for the top-level error body. A failure before the loop (the configuration cannot be
  retrieved, or the sources cannot be selected) gives 500.
\<close>

theorem status_is_three_way:
  assumes "handler w t event = (r, cs)"
  shows "(statusCode r = 200 \<longleftrightarrow> is_Report (body r) \<and> errors (body r) = []) \<and>
         (statusCode r = 207 \<longleftrightarrow> is_Report (body r) \<and> errors (body r) \<noteq> []) \<and>
         (statusCode r = 500 \<longleftrightarrow> \<not> is_Report (body r)) \<and>
         (\<forall>e. get_api_config w = Inl e \<longrightarrow> statusCode r = 500) \<and>
         (\<forall>config e. get_api_config w = Inr config \<longrightarrow> select_sources config event = Inl e
            \<longrightarrow> statusCode r = 500)"
proof (cases "get_api_config w")
  case (Inl e)
  with assms show ?thesis by (auto simp: handler_def fatal_def)
next
  case config: (Inr config)
  show ?thesis
  proof (cases "select_sources config event")
    case (Inl e)
    with assms config show ?thesis by (auto simp: handler_def fatal_def)
  next
    case sources: (Inr sources)
    obtain out cs' where loop: "for_sources w t sources [] [] = (out, cs')"
      by (cases "for_sources w t sources [] []")
    show ?thesis
    proof (cases out)
      case (Inl e)
      with assms config sources loop show ?thesis by (auto simp: handler_def fatal_def)
    next
      case (Inr p)
      obtain rs es where p: "p = (rs, es)" by (cases p)
      from assms config sources loop Inr p
      have "r = \<lparr>statusCode = (if es = [] then 200 else 207),
                 body = Report (isoformat t) (length sources) (length rs) (length es) rs es\<rparr>"
        by (auto simp: handler_def)
      then show ?thesis using config sources by simp
    qed
  qed
qed

theorem status_is_three_way_witness:
  "statusCode (fst (handler example_aws noon (JDict []))) = 207 \<and>
   is_Report (body (fst (handler example_aws noon (JDict [])))) \<and>
   errors (body (fst (handler example_aws noon (JDict [])))) \<noteq> []"
  using status_is_three_way
    [of example_aws noon "JDict []" "fst (handler example_aws noon (JDict []))"
       "snd (handler example_aws noon (JDict []))"]
  by (simp add: example_run)

text \<open>
  Claim C7. A run that completes (its status is not 500) returns a report in which
  \<^verbatim>\<open>successful\<close> and \<^verbatim>\<open>failed\<close> are the lengths of \<^verbatim>\<open>results\<close> and \<^verbatim>\<open>errors\<close>, these
  add up to \<^verbatim>\<open>total_sources\<close>, and \<^verbatim>\<open>total_sources\<close> is the number of sources selected
  from the configuration, after the filter on the requested name.
\<close>

theorem report_counts_add_up:
  assumes "handler w t event = (r, cs)" and "statusCode r \<noteq> 500"
  shows "\<exists>config sources.
           get_api_config w = Inr config \<and> select_sources config event = Inr sources \<and>
           total_sources (body r) = length sources \<and>
           successful (body r) = length (results (body r)) \<and>
           failed (body r) = length (errors (body r)) \<and>
           length (results (body r)) + length (errors (body r)) = total_sources (body r)"
proof (cases "get_api_config w")
  case (Inl e)
  with assms show ?thesis by (auto simp: handler_def fatal_def)
next
  case config: (Inr config)
  show ?thesis
  proof (cases "select_sources config event")
    case (Inl e)
    with assms config show ?thesis by (auto simp: handler_def fatal_def)
  next
    case sources: (Inr sources)
    obtain out cs' where loop: "for_sources w t sources [] [] = (out, cs')"
      by (cases "for_sources w t sources [] []")
    show ?thesis
    proof (cases out)
      case (Inl e)
      with assms config sources loop show ?thesis by (auto simp: handler_def fatal_def)
    next
      case (Inr p)
      obtain rs es where p: "p = (rs, es)" by (cases p)
      from loop Inr p have "length rs + length es = length sources"
        using for_sources_count [of w t sources "[]" "[]" rs es cs'] by simp
      moreover from assms(1) config sources loop Inr p
      have "body r = Report (isoformat t) (length sources) (length rs) (length es) rs es"
        by (auto simp: handler_def)
      ultimately show ?thesis using config sources by simp
    qed
  qed
qed

theorem report_counts_add_up_witness:
  "statusCode (fst (handler example_aws noon (JDict []))) \<noteq> 500 \<and>
   total_sources (body (fst (handler example_aws noon (JDict [])))) = 3 \<and>
   length (results (body (fst (handler example_aws noon (JDict []))))) +
     length (errors (body (fst (handler example_aws noon (JDict []))))) =
   total_sources (body (fst (handler example_aws noon (JDict []))))"
proof -
  have ok: "statusCode (fst (handler example_aws noon (JDict []))) \<noteq> 500"
    by (simp add: example_run)
  have run: "handler example_aws noon (JDict []) =
      (fst (handler example_aws noon (JDict [])), snd (handler example_aws noon (JDict [])))"
    by simp
  show ?thesis
    using report_counts_add_up [OF run ok] ok by (simp add: example_run)
qed

text \<open>
  Claim C8. When the configuration cannot be retrieved, the handler makes no call at all
  (no request to any source, no object put) and answers with the top-level error body
  and status 500, which carries no per-source entry.
\<close>

theorem config_failure_is_fatal:
  assumes "get_api_config w = Inl e"
  shows "handler w t event =
           (\<lparr>statusCode = 500, body = Fatal (str_exn e) (isoformat t)\<rparr>, [])"
  using assms by (simp add: handler_def fatal_def)

theorem config_failure_is_fatal_witness:
  "handler locked_aws noon (JDict []) =
     (\<lparr>statusCode = 500, body = Fatal ''AccessDeniedException'' (isoformat noon)\<rparr>, [])"
  using config_failure_is_fatal [OF locked_get_api_config, of noon "JDict []"] by simp

text \<open>
  Claim C10. A selected source that is a dict without the key \<^verbatim>\<open>name\<close> ends the run:
  \<open>process_source\<close> raises \<^verbatim>\<open>KeyError\<close>, the \<^verbatim>\<open>except\<close> block raises it again while it
  builds the error entry, and the handler answers 500 with the top-level error body. Only
  the sources before it have been processed; none of those after it is.
\<close>

theorem nameless_source_aborts_run:
  assumes "get_api_config w = Inr config"
    and "select_sources config event = Inr (pre @ JDict kvs # post)"
    and "\<forall>s\<in>set pre. \<exists>n. subscript s ''name'' = Inr n"
    and "map_of kvs ''name'' = None"
  shows "handler w t event =
           (\<lparr>statusCode = 500, body = Fatal (str_exn (KeyError ''name'')) (isoformat t)\<rparr>,
            concat (map (\<lambda>s. snd (process_source w s t)) pre))"
proof -
  have "subscript (JDict kvs) ''name'' = Inl (KeyError ''name'')"
    using assms(4) by (simp add: subscript_def)
  with assms(3) have "for_sources w t (pre @ JDict kvs # post) [] [] =
      (Inl (KeyError ''name''), concat (map (\<lambda>s. snd (process_source w s t)) pre))"
    by (rule for_sources_unnamed)
  then show ?thesis
    using assms(1,2) by (simp add: handler_def fatal_def)
qed

theorem nameless_source_aborts_run_witness:
  "handler nameless_aws noon (JDict []) =
     (\<lparr>statusCode = 500, body = Fatal (str_exn (KeyError ''name'')) (isoformat noon)\<rparr>,
      snd (process_source nameless_aws (api ''a'') noon))"
proof -
  have named: "\<forall>s\<in>set [api ''a'']. \<exists>n. subscript s ''name'' = Inr n"
    by (simp add: api_def subscript_def)
  have none: "map_of [(''url'', JStr ''https://b'')] ''name'' = None"
    by simp
  show ?thesis
    using nameless_source_aborts_run
      [OF nameless_get_api_config nameless_select_all named none, of noon]
    by simp
qed

section \<open>Properties of the Glue job\<close>

subsection \<open>The order of the window\<close>

lemma val_less_irrefl: "\<not> val_less a a"
  by (cases a) simp_all

lemma val_less_trans:
  assumes "val_less a b" and "val_less b c"
  shows "val_less a c"
proof (cases a)
  case Null
  with assms show ?thesis by (cases b; cases c) simp_all
next
  case (BoolV x)
  with assms show ?thesis by (cases b; cases c) simp_all
next
  case (IntV x)
  with assms show ?thesis by (cases b; cases c) simp_all
next
  case (StrV x)
  with assms show ?thesis by (cases b; cases c) (simp_all, (erule (1) less_trans)?)
next
  case (TsV x)
  with assms show ?thesis by (cases b; cases c) simp_all
qed


lemma val_less_total: "val_less a b \<or> a = b \<or> val_less b a"
  by (cases a; cases b) auto

lemma precedes_irrefl: "\<not> precedes rs i i"
  by (simp add: precedes_def val_less_irrefl)

lemma precedes_trans:
  assumes "precedes rs k j" and "precedes rs j i"
  shows "precedes rs k i"
proof -
  let ?t = "\<lambda>n. cell (rs ! n) ''timestamp''"
  from assms have ids: "cell (rs ! k) ''id'' = cell (rs ! i) ''id''"
    by (simp add: precedes_def)
  from assms have kj: "val_less (?t j) (?t k) \<or> ?t k = ?t j \<and> k < j"
    and ji: "val_less (?t i) (?t j) \<or> ?t j = ?t i \<and> j < i"
    by (simp_all add: precedes_def)
  from kj ji have "val_less (?t i) (?t k) \<or> ?t k = ?t i \<and> k < i"
    using val_less_trans [of "?t i" "?t j" "?t k"] by auto
  with ids show ?thesis by (simp add: precedes_def)
qed

lemma precedes_total:
  "cell (rs ! i) ''id'' = cell (rs ! j) ''id'' \<Longrightarrow> i \<noteq> j \<Longrightarrow>
     precedes rs i j \<or> precedes rs j i"
  unfolding precedes_def
  using val_less_total [of "cell (rs ! i) ''timestamp''" "cell (rs ! j) ''timestamp''"]
  by auto

lemma precedes_same_id: "precedes rs j i \<Longrightarrow> cell (rs ! j) ''id'' = cell (rs ! i) ''id''"
  by (simp add: precedes_def)

lemma row_number_first:
  "row_number rs i = Suc 0 \<longleftrightarrow> (\<forall>j<length rs. \<not> precedes rs j i)"
  by (auto simp: row_number_def filter_empty_conv)

subsection \<open>Dropping duplicates\<close>

lemma cell_update: "cell (AList.update k v r) c = (if c = k then v else cell r c)"
  by (simp add: cell_def update_conv')

lemma cell_delete: "cell (AList.delete k r) c = (if c = k then Null else cell r c)"
  by (simp add: cell_def delete_conv')

lemma rows_drop_duplicates:
  assumes "''id'' \<in> set (columns df)" and "''timestamp'' \<in> set (columns df)"
  shows "rows (drop_duplicates e df) =
           map (\<lambda>i. AList.delete ''row_num'' (exchange e (rows df) ! i))
             (survivors (exchange e (rows df)))"
  using assms
  by (simp add: drop_duplicates_def drop_column_def where_rows_def with_row_num_def Let_def
      survivors_def filter_map comp_def cell_update delete_update_same)

lemma survivors_iff:
  "i \<in> set (survivors rs) \<longleftrightarrow> i < length rs \<and> (\<forall>j<length rs. \<not> precedes rs j i)"
  by (auto simp: survivors_def row_number_first)

lemma survivors_distinct_ids:
  "distinct (map (\<lambda>i. cell (rs ! i) ''id'') (survivors rs))"
proof -
  have "inj_on (\<lambda>i. cell (rs ! i) ''id'') (set (survivors rs))"
  proof (rule inj_onI)
    fix i j
    assume i: "i \<in> set (survivors rs)" and j: "j \<in> set (survivors rs)"
      and eq: "cell (rs ! i) ''id'' = cell (rs ! j) ''id''"
    show "i = j"
    proof (rule ccontr)
      assume "i \<noteq> j"
      with eq have "precedes rs i j \<or> precedes rs j i" by (rule precedes_total)
      with i j show False by (auto simp: survivors_iff)
    qed
  qed
  moreover have "distinct (survivors rs)" by (simp add: survivors_def)
  ultimately show ?thesis by (simp add: distinct_map)
qed

lemma survivor_exists:
  assumes "j < length rs"
  shows "\<exists>i\<in>set (survivors rs). cell (rs ! i) ''id'' = cell (rs ! j) ''id''"
  using assms
proof (induction "card {k. k < length rs \<and> precedes rs k j}" arbitrary: j rule: less_induct)
  case less
  show ?case
  proof (cases "\<forall>k<length rs. \<not> precedes rs k j")
    case True
    with less.prems have "j \<in> set (survivors rs)" by (simp add: survivors_iff)
    then show ?thesis by blast
  next
    case False
    then obtain k where k: "k < length rs" "precedes rs k j" by blast
    have "{m. m < length rs \<and> precedes rs m k} \<subset> {m. m < length rs \<and> precedes rs m j}"
    proof
      show "{m. m < length rs \<and> precedes rs m k} \<subseteq> {m. m < length rs \<and> precedes rs m j}"
        using k(2) by (auto intro: precedes_trans)
      have "k \<in> {m. m < length rs \<and> precedes rs m j}" using k by simp
      moreover have "k \<notin> {m. m < length rs \<and> precedes rs m k}"
        by (simp add: precedes_irrefl)
      ultimately show "{m. m < length rs \<and> precedes rs m k} \<noteq> {m. m < length rs \<and> precedes rs m j}"
        by blast
    qed
    moreover have "finite {m. m < length rs \<and> precedes rs m j}" by simp
    ultimately have "card {m. m < length rs \<and> precedes rs m k} < card {m. m < length rs \<and> precedes rs m j}"
      by (rule psubset_card_mono [rotated])
    from less.hyps [OF this k(1)]
    obtain i where "i \<in> set (survivors rs)" "cell (rs ! i) ''id'' = cell (rs ! k) ''id''"
      by blast
    moreover have "cell (rs ! k) ''id'' = cell (rs ! j) ''id''"
      using k(2) by (rule precedes_same_id)
    ultimately show ?thesis by auto
  qed
qed

lemma survivor_is_latest:
  assumes "i \<in> set (survivors rs)" and "j < length rs"
    and "cell (rs ! j) ''id'' = cell (rs ! i) ''id''"
  shows "\<not> val_less (cell (rs ! i) ''timestamp'') (cell (rs ! j) ''timestamp'')"
proof
  assume "val_less (cell (rs ! i) ''timestamp'') (cell (rs ! j) ''timestamp'')"
  with assms(3) have "precedes rs j i" by (simp add: precedes_def)
  with assms(1,2) show False by (simp add: survivors_iff)
qed

lemma drop_duplicates_keys:
  assumes "''id'' \<in> set (columns df)" and "''timestamp'' \<in> set (columns df)"
    and "mset (exchange e (rows df)) = mset (rows df)"
  shows "distinct (map (\<lambda>r. cell r ''id'') (rows (drop_duplicates e df))) \<and>
         (\<lambda>r. cell r ''id'') ` set (rows (drop_duplicates e df)) =
           (\<lambda>r. cell r ''id'') ` set (rows df) \<and>
         (\<forall>r\<in>set (rows (drop_duplicates e df)).
            \<exists>r0\<in>set (rows df). r = AList.delete ''row_num'' r0 \<and>
              (\<forall>r'\<in>set (rows df). cell r' ''id'' = cell r0 ''id'' \<longrightarrow>
                 \<not> val_less (cell r0 ''timestamp'') (cell r' ''timestamp'')))"
proof -
  define rs where "rs = exchange e (rows df)"
  have same: "set rs = set (rows df)"
    using assms(3) unfolding rs_def by (rule mset_eq_setD)
  have out: "rows (drop_duplicates e df) =
      map (\<lambda>i. AList.delete ''row_num'' (rs ! i)) (survivors rs)"
    unfolding rs_def using assms(1,2) by (rule rows_drop_duplicates)
  have ids: "map (\<lambda>r. cell r ''id'') (rows (drop_duplicates e df)) =
      map (\<lambda>i. cell (rs ! i) ''id'') (survivors rs)"
    by (simp add: out comp_def cell_delete)
  have one: "distinct (map (\<lambda>r. cell r ''id'') (rows (drop_duplicates e df)))"
    by (simp only: ids survivors_distinct_ids)
  have two: "(\<lambda>r. cell r ''id'') ` set (rows (drop_duplicates e df)) =
      (\<lambda>r. cell r ''id'') ` set (rows df)"
  proof
    show "(\<lambda>r. cell r ''id'') ` set (rows (drop_duplicates e df))
        \<subseteq> (\<lambda>r. cell r ''id'') ` set (rows df)"
    proof
      fix v assume "v \<in> (\<lambda>r. cell r ''id'') ` set (rows (drop_duplicates e df))"
      then have "v \<in> set (map (\<lambda>i. cell (rs ! i) ''id'') (survivors rs))"
        by (simp only: ids [symmetric] set_map)
      then obtain i where i: "i \<in> set (survivors rs)" and v: "v = cell (rs ! i) ''id''"
        by auto
      from i have "rs ! i \<in> set (rows df)"
        by (simp add: survivors_iff same [symmetric])
      with v show "v \<in> (\<lambda>r. cell r ''id'') ` set (rows df)" by blast
    qed
    show "(\<lambda>r. cell r ''id'') ` set (rows df)
        \<subseteq> (\<lambda>r. cell r ''id'') ` set (rows (drop_duplicates e df))"
    proof
      fix v assume "v \<in> (\<lambda>r. cell r ''id'') ` set (rows df)"
      then obtain r where "r \<in> set rs" and v: "v = cell r ''id''"
        by (auto simp: same)
      then obtain j where j: "j < length rs" and r: "r = rs ! j"
        by (auto simp: in_set_conv_nth)
      from survivor_exists [OF j]
      obtain i where i: "i \<in> set (survivors rs)"
        and eq: "cell (rs ! i) ''id'' = cell (rs ! j) ''id''"
        by blast
      from eq v r have "v = cell (rs ! i) ''id''" by simp
      with i have "v \<in> (\<lambda>i. cell (rs ! i) ''id'') ` set (survivors rs)"
        by (rule image_eqI [rotated])
      then have "v \<in> set (map (\<lambda>i. cell (rs ! i) ''id'') (survivors rs))"
        by (simp only: set_map)
      then show "v \<in> (\<lambda>r. cell r ''id'') ` set (rows (drop_duplicates e df))"
        by (simp only: ids [symmetric] set_map)
    qed
  qed
  have three: "\<forall>r\<in>set (rows (drop_duplicates e df)).
      \<exists>r0\<in>set (rows df). r = AList.delete ''row_num'' r0 \<and>
        (\<forall>r'\<in>set (rows df). cell r' ''id'' = cell r0 ''id'' \<longrightarrow>
           \<not> val_less (cell r0 ''timestamp'') (cell r' ''timestamp''))"
  proof
    fix r assume "r \<in> set (rows (drop_duplicates e df))"
    then obtain i where i: "i \<in> set (survivors rs)"
      and r: "r = AList.delete ''row_num'' (rs ! i)"
      by (auto simp: out)
    from i have in_df: "rs ! i \<in> set (rows df)"
      by (simp add: survivors_iff same [symmetric])
    have "\<forall>r'\<in>set (rows df). cell r' ''id'' = cell (rs ! i) ''id'' \<longrightarrow>
        \<not> val_less (cell (rs ! i) ''timestamp'') (cell r' ''timestamp'')"
    proof (intro ballI impI)
      fix r' assume "r' \<in> set (rows df)" and eq: "cell r' ''id'' = cell (rs ! i) ''id''"
      then obtain j where j: "j < length rs" and r': "r' = rs ! j"
        by (auto simp: same [symmetric] in_set_conv_nth)
      from eq r' have "cell (rs ! j) ''id'' = cell (rs ! i) ''id''" by simp
      with i j have "\<not> val_less (cell (rs ! i) ''timestamp'') (cell (rs ! j) ''timestamp'')"
        by (rule survivor_is_latest)
      then show "\<not> val_less (cell (rs ! i) ''timestamp'') (cell r' ''timestamp'')"
        by (simp add: r')
    qed
    with in_df r show "\<exists>r0\<in>set (rows df). r = AList.delete ''row_num'' r0 \<and>
        (\<forall>r'\<in>set (rows df). cell r' ''id'' = cell r0 ''id'' \<longrightarrow>
           \<not> val_less (cell r0 ''timestamp'') (cell r' ''timestamp''))"
      by blast
  qed
  from one two three show ?thesis by (intro conjI)
qed


subsection \<open>Trimming\<close>


lemma trim_ends: "trim s = [] \<or> hd (trim s) \<noteq> CHR '' '' \<and> last (trim s) \<noteq> CHR '' ''"
proof (cases "trim s = []")
  case True
  then show ?thesis by simp
next
  case False
  define P where "P = (\<lambda>c. c = CHR '' '')"
  define m where "m = dropWhile P s"
  define u where "u = dropWhile P (rev m)"
  define w where "w = rev (takeWhile P (rev m))"
  have t: "trim s = rev u" by (simp add: trim_def P_def m_def u_def)
  with False have u: "u \<noteq> []" by simp
  then have nu: "\<not> P (hd u)" unfolding u_def by (rule hd_dropWhile)
  have "last (rev u) = hd u" using u by (simp add: last_rev)
  with nu have l: "\<not> P (last (rev u))" by simp
  have "rev (takeWhile P (rev m) @ dropWhile P (rev m)) = rev (rev m)"
    by (simp only: takeWhile_dropWhile_id)
  then have m: "rev u @ w = m"
    by (simp only: rev_append rev_rev_ident u_def w_def)
  have hm: "hd m = hd (rev u)" by (subst m [symmetric]) (simp add: u)
  have "m \<noteq> []" by (subst m [symmetric]) (simp add: u)
  from \<open>m \<noteq> []\<close> have "\<not> P (hd m)" unfolding m_def by (rule hd_dropWhile)
  then have h: "\<not> P (hd (rev u))" by (simp add: hm)
  from h l show ?thesis by (simp add: t P_def)
qed

lemma trim_idem: "trim (trim s) = trim s"
proof -
  define t where "t = trim s"
  have "trim t = t"
  proof (cases "t = []")
    case True
    then show ?thesis by (simp add: trim_def)
  next
    case False
    with trim_ends [of s] have h: "hd t \<noteq> CHR '' ''" and l: "last t \<noteq> CHR '' ''"
      by (simp_all add: t_def)
    from False h have 1: "dropWhile (\<lambda>c. c = CHR '' '') t = t"
      by (cases t) simp_all
    from False l have "hd (rev t) \<noteq> CHR '' ''" by (simp add: hd_rev)
    moreover from False have "rev t \<noteq> []" by simp
    ultimately have 2: "dropWhile (\<lambda>c. c = CHR '' '') (rev t) = rev t"
      by (cases "rev t") simp_all
    show ?thesis by (simp add: trim_def 1 2)
  qed
  then show ?thesis by (simp only: t_def)
qed


lemma trim_val_idem: "trim_val (trim_val v) = trim_val v"
  by (cases v) (simp_all add: trim_idem)

lemma trim_val_Null: "trim_val v = Null \<longleftrightarrow> v = Null"
  by (cases v) simp_all



lemma columns_withColumn:
  "c \<in> set (columns df) \<Longrightarrow> columns (withColumn c ty f df) = columns df"
  by (simp add: columns_def withColumn_def update_keys image_iff)

lemma rows_withColumn:
  "list_all2 (\<lambda>r' r. \<forall>c'. cell r' c' = (if c' = c then f r else cell r c'))
     (rows (withColumn c ty f df)) (rows df)"
  by (simp add: withColumn_def list_all2_map1 cell_update list.rel_refl)

lemma trim_columns_Inr:
  "trim_columns cs d = Inr t \<Longrightarrow>
     columns t = columns d \<and>
     list_all2 (\<lambda>r' r. \<forall>c. cell r' c = (if c \<in> set cs then trim_val (cell r c) else cell r c))
       (rows t) (rows d)"
proof (induction cs arbitrary: d)
  case Nil
  then show ?case by (simp add: list.rel_refl)
next
  case (Cons c cs)
  let ?d = "withColumn c StringType (\<lambda>r. trim_val (cell r c)) d"
  from Cons.prems have c: "c \<in> set (columns d)" and run: "trim_columns cs ?d = Inr t"
    by (simp_all split: if_splits)
  from Cons.IH [OF run] have cols: "columns t = columns ?d"
    and rel: "list_all2 (\<lambda>r' r. \<forall>c. cell r' c =
        (if c \<in> set cs then trim_val (cell r c) else cell r c)) (rows t) (rows ?d)"
    by simp_all
  have step: "list_all2 (\<lambda>r' r. \<forall>c'. cell r' c' =
      (if c' = c then trim_val (cell r c) else cell r c')) (rows ?d) (rows d)"
    by (rule rows_withColumn)
  have "list_all2 (\<lambda>r' r. \<forall>c'. cell r' c' =
      (if c' \<in> set (c # cs) then trim_val (cell r c') else cell r c')) (rows t) (rows d)"
    using _ rel step
  proof (rule list_all2_trans)
    fix a b x
    assume 1: "\<forall>c. cell a c = (if c \<in> set cs then trim_val (cell b c) else cell b c)"
      and 2: "\<forall>c'. cell b c' = (if c' = c then trim_val (cell x c) else cell x c')"
    show "\<forall>c'. cell a c' = (if c' \<in> set (c # cs) then trim_val (cell x c') else cell x c')"
    proof
      fix c'
      from 1 have "cell a c' = (if c' \<in> set cs then trim_val (cell b c') else cell b c')" ..
      moreover from 2 have "cell b c' = (if c' = c then trim_val (cell x c) else cell x c')" ..
      ultimately show "cell a c' =
          (if c' \<in> set (c # cs) then trim_val (cell x c') else cell x c')"
        by (auto simp: trim_val_idem)
    qed
  qed
  moreover from cols c have "columns t = columns d"
    by (simp add: columns_withColumn)
  ultimately show ?case by simp
qed

subsection \<open>The sample frames\<close>

lemma tied_in_order:
  "rows (drop_duplicates example_spark tied) =
     [record_of (IntV 1) 1710496800000000 ''first'']"
  by (simp add: drop_duplicates_def drop_column_def where_rows_def with_row_num_def Let_def
      tied_def event_schema_def columns_def example_spark_def record_of_def row_number_def
      precedes_def cell_def)

lemma tied_reversed:
  "rows (drop_duplicates reversing_spark tied) =
     [record_of (IntV 1) 1710496800000000 ''second'']"
  by (simp add: drop_duplicates_def drop_column_def where_rows_def with_row_num_def Let_def
      tied_def event_schema_def columns_def example_spark_def reversing_spark_def
      record_of_def row_number_def precedes_def cell_def)


lemma unstamped_cleaned_newer:
  "clean_data newer_spark unstamped =
     Inr \<lparr>schema = [(''id'', LongType), (''name'', StringType)],
          rows = [[(''id'', IntV 1), (''name'', StrV ''  abc  '')],
                  [(''id'', IntV 1), (''name'', StrV ''abc'')]]\<rparr>"
  by (simp add: clean_data_def drop_duplicates_def unstamped_def columns_def string_cols_def
      newer_spark_def example_spark_def type_name_parens_def na_drop_id_def where_rows_def
      cell_def)

lemma ten_deduped:
  "drop_duplicates catalog_spark ten_records =
     \<lparr>schema = event_schema,
      rows = [record_of (IntV 1) 1710496800000000 ''a'',
              record_of (IntV 2) 1710496800000000 ''b'',
              record_of (IntV 3) 1710496860000000 ''c again'',
              record_of Null 1710496800000000 ''d'',
              record_of (IntV 4) 1710496800000000 ''e'',
              record_of (IntV 5) 1710496800000000 ''f'',
              record_of (IntV 6) 1710496800000000 ''g'',
              record_of (IntV 7) 1710496800000000 ''h'',
              record_of (IntV 8) 1710496800000000 ''i'']\<rparr>"
  by (simp add: drop_duplicates_def drop_column_def where_rows_def with_row_num_def Let_def
      ten_records_def event_schema_def columns_def example_spark_def catalog_spark_def
      record_of_def row_number_def precedes_def cell_def)

subsection \<open>Counting and partitioning\<close>

lemma drop_duplicates_count:
  assumes "''id'' \<in> set (columns df)" and "''timestamp'' \<in> set (columns df)"
    and "mset (exchange e (rows df)) = mset (rows df)"
  shows "length (filter (\<lambda>r. cell r ''id'' \<noteq> Null) (rows (drop_duplicates e df))) =
           card ((\<lambda>r. cell r ''id'') ` set (rows df) - {Null})"
proof -
  define ids where "ids = map (\<lambda>r. cell r ''id'') (rows (drop_duplicates e df))"
  from drop_duplicates_keys [OF assms]
  have d: "distinct ids" and s: "set ids = (\<lambda>r. cell r ''id'') ` set (rows df)"
    by (simp_all add: ids_def)
  have "length (filter (\<lambda>r. cell r ''id'' \<noteq> Null) (rows (drop_duplicates e df))) =
      length (filter (\<lambda>v. v \<noteq> Null) ids)"
    by (simp add: ids_def filter_map comp_def)
  also have "\<dots> = card (set (filter (\<lambda>v. v \<noteq> Null) ids))"
  proof -
    from d have "distinct (filter (\<lambda>v. v \<noteq> Null) ids)" by (rule distinct_filter)
    then show ?thesis by (rule distinct_card [symmetric])
  qed
  also have "set (filter (\<lambda>v. v \<noteq> Null) ids) = set ids - {Null}" by auto
  finally show ?thesis by (simp only: s)
qed

lemma filter_length_rel:
  "list_all2 R xs ys \<Longrightarrow> (\<And>x y. R x y \<Longrightarrow> P x = Q y) \<Longrightarrow>
     length (filter P xs) = length (filter Q ys)"
  by (induction rule: list_all2_induct) simp_all

lemma length_rows_withColumn: "length (rows (withColumn c ty f df)) = length (rows df)"
  by (simp add: withColumn_def)

lemma length_rows_add_audit_columns:
  "length (rows (add_audit_columns e args df)) = length (rows df)"
  by (simp add: add_audit_columns_def length_rows_withColumn)

lemma add_partitions_rows:
  assumes "add_partitions e df = Inr out"
  shows "list_all2
     (\<lambda>r' r.
        (cell r' ''year'', cell r' ''month'', cell r' ''day'') =
          (if ''timestamp'' \<in> set (columns df)
           then (year_of e (cell r ''timestamp''), month_of e (cell r ''timestamp''),
                 dayofmonth_of e (cell r ''timestamp''))
           else (IntV (int (year (utcnow e))), IntV (int (month (utcnow e))),
                 IntV (int (day (utcnow e))))) \<and>
        (\<forall>c. c \<notin> {''year'', ''month'', ''day''} \<longrightarrow> cell r' c = cell r c))
     (rows out) (rows df)"
proof (cases "''timestamp'' \<in> set (columns df)")
  case True
  with assms have "out = withColumn ''day'' IntegerType (\<lambda>r. dayofmonth_of e (cell r ''timestamp''))
       (withColumn ''month'' IntegerType (\<lambda>r. month_of e (cell r ''timestamp''))
       (withColumn ''year'' IntegerType (\<lambda>r. year_of e (cell r ''timestamp'')) df))"
    by (simp add: add_partitions_def split: if_splits)
  with True show ?thesis
    by (simp add: withColumn_def list_all2_map1 list_all2_same cell_update)
next
  case False
  with assms have "out = withColumn ''day'' IntegerType (\<lambda>r. IntV (int (day (utcnow e))))
       (withColumn ''month'' IntegerType (\<lambda>r. IntV (int (month (utcnow e))))
       (withColumn ''year'' IntegerType (\<lambda>r. IntV (int (year (utcnow e)))) df))"
    by (simp add: add_partitions_def Let_def)
  with False show ?thesis
    by (simp add: withColumn_def list_all2_map1 list_all2_same cell_update)
qed

lemma add_partitions_total:
  assumes "''timestamp'' \<notin> set (columns df) \<or>
     map_of (schema df) ''timestamp'' \<in> {Some TimestampType, Some StringType}"
  shows "\<exists>out. add_partitions e df = Inr out"
  using assms by (auto simp: add_partitions_def Let_def)

lemma date_of_TsV:
  "(year_of e (TsV t), month_of e (TsV t), dayofmonth_of e (TsV t)) =
     (case date_of_timestamp e t of (y, m, d) \<Rightarrow> (IntV y, IntV m, IntV d))"
  by (simp add: year_of_def month_of_def dayofmonth_of_def date_of_def split: prod.splits)

lemma ten_cleaned:
  "clean_data catalog_spark ten_records =
     Inr \<lparr>schema = event_schema,
          rows = [record_of (IntV 1) 1710496800000000 ''a'',
                  record_of (IntV 2) 1710496800000000 ''b'',
                  record_of (IntV 3) 1710496860000000 ''c again'',
                  record_of (IntV 4) 1710496800000000 ''e'',
                  record_of (IntV 5) 1710496800000000 ''f'',
                  record_of (IntV 6) 1710496800000000 ''g'',
                  record_of (IntV 7) 1710496800000000 ''h'',
                  record_of (IntV 8) 1710496800000000 ''i'']\<rparr>"
  unfolding clean_data_def ten_deduped
  by (simp add: string_cols_def ten_records_def event_schema_def columns_def withColumn_def
      catalog_spark_def example_spark_def na_drop_id_def where_rows_def record_of_def cell_def
      trim_def)

lemma ten_main: "\<exists>run. main catalog_spark example_args = Inr run"
proof -
  have "from_catalog catalog_spark (source_database example_args) (source_table example_args)
      = Inr ten_records"
    by (simp add: catalog_spark_def example_spark_def)
  moreover have "\<exists>wp.
     add_partitions catalog_spark
       (add_audit_columns catalog_spark example_args
          \<lparr>schema = event_schema,
           rows = [record_of (IntV 1) 1710496800000000 ''a'',
                  record_of (IntV 2) 1710496800000000 ''b'',
                  record_of (IntV 3) 1710496860000000 ''c again'',
                  record_of (IntV 4) 1710496800000000 ''e'',
                  record_of (IntV 5) 1710496800000000 ''f'',
                  record_of (IntV 6) 1710496800000000 ''g'',
                  record_of (IntV 7) 1710496800000000 ''h'',
                  record_of (IntV 8) 1710496800000000 ''i'']\<rparr>) = Inr wp"
    by (simp add: add_partitions_def add_audit_columns_def withColumn_def event_schema_def
        columns_def)
  moreover have "write_dynamic_frame catalog_spark p ks d = None" for p ks d
    by (simp add: catalog_spark_def example_spark_def)
  ultimately show ?thesis
    by (auto simp: main_def ten_cleaned write_processed_data_def)
qed


section \<open>Claims about the Glue job\<close>

text \<open>
  Claim C2, as the code has it. The partitioner rejects no record: the frame it returns
  has one record for each record it was given, the other columns unchanged. The branch is
  on the schema. Without a timestamp column, every record carries the processing date as
  its (year, month, day). With a timestamp column, every record's triple comes from that
  record's timestamp value, and it is the date of the value whenever the value is a
  timestamp. The partitioner succeeds whenever the timestamp column is absent or of a
  timestamp or string type.
\<close>

theorem partition_triple_follows_schema:
  "(''timestamp'' \<notin> set (columns df) \<or>
    map_of (schema df) ''timestamp'' \<in> {Some TimestampType, Some StringType} \<longrightarrow>
      (\<exists>out. add_partitions e df = Inr out)) \<and>
   (\<forall>out. add_partitions e df = Inr out \<longrightarrow>
      list_all2
        (\<lambda>r' r.
           (cell r' ''year'', cell r' ''month'', cell r' ''day'') =
             (if ''timestamp'' \<in> set (columns df)
              then (year_of e (cell r ''timestamp''), month_of e (cell r ''timestamp''),
                    dayofmonth_of e (cell r ''timestamp''))
              else (IntV (int (year (utcnow e))), IntV (int (month (utcnow e))),
                    IntV (int (day (utcnow e))))) \<and>
           (\<forall>c. c \<notin> {''year'', ''month'', ''day''} \<longrightarrow> cell r' c = cell r c))
        (rows out) (rows df)) \<and>
   (\<forall>t. (year_of e (TsV t), month_of e (TsV t), dayofmonth_of e (TsV t)) =
      (case date_of_timestamp e t of (y, m, d) \<Rightarrow> (IntV y, IntV m, IntV d)))"
  using add_partitions_total [of df e] add_partitions_rows [of e df] date_of_TsV [of e]
  by (intro conjI allI impI) simp_all

theorem partition_triple_follows_schema_witness:
  "\<exists>out. add_partitions example_spark unstamped = Inr out \<and>
     list_all2
       (\<lambda>r' r. (cell r' ''year'', cell r' ''month'', cell r' ''day'') =
          (IntV 2024, IntV 3, IntV 15))
       (rows out) (rows unstamped)"
proof -
  from partition_triple_follows_schema [of unstamped example_spark]
  obtain out where out: "add_partitions example_spark unstamped = Inr out"
    by (auto simp: unstamped_def columns_def)
  with partition_triple_follows_schema [of unstamped example_spark]
  have "list_all2
        (\<lambda>r' r.
           (cell r' ''year'', cell r' ''month'', cell r' ''day'') =
             (if ''timestamp'' \<in> set (columns unstamped)
              then (year_of example_spark (cell r ''timestamp''),
                    month_of example_spark (cell r ''timestamp''),
                    dayofmonth_of example_spark (cell r ''timestamp''))
              else (IntV (int (year (utcnow example_spark))),
                    IntV (int (month (utcnow example_spark))),
                    IntV (int (day (utcnow example_spark))))) \<and>
           (\<forall>c. c \<notin> {''year'', ''month'', ''day''} \<longrightarrow> cell r' c = cell r c))
        (rows out) (rows unstamped)"
    by blast
  then have "list_all2
       (\<lambda>r' r. (cell r' ''year'', cell r' ''month'', cell r' ''day'') =
          (IntV 2024, IntV 3, IntV 15))
       (rows out) (rows unstamped)"
    by (rule list_all2_mono) (simp add: unstamped_def columns_def example_spark_def noon_def)
  with out show ?thesis by blast
qed

text \<open>
  Claim C2 as it is written fails on a record whose timestamp value is null in a frame
  that has the timestamp column: its year, month and day are null, not the processing
  date.
\<close>

theorem null_timestamp_gets_null_partition:
  "add_partitions example_spark undated =
     Inr \<lparr>schema = [(''id'', LongType), (''timestamp'', TimestampType), (''name'', StringType),
                    (''year'', IntegerType), (''month'', IntegerType), (''day'', IntegerType)],
          rows = [[(''id'', IntV 7), (''timestamp'', Null), (''name'', StrV ''late''),
                   (''year'', Null), (''month'', Null), (''day'', Null)]]\<rparr>"
  by (simp add: add_partitions_def undated_def event_schema_def columns_def withColumn_def
      cell_def year_of_def month_of_def dayofmonth_of_def date_of_def)

text \<open>
  Claim C3, as the code has it. For a frame with the columns \<^verbatim>\<open>id\<close> and \<^verbatim>\<open>timestamp\<close>,
  whatever arrangement of the rows the exchange delivers: no two surviving records have
  the same id; every id of the input has a surviving record; each surviving record is a
  record of the input (less a \<^verbatim>\<open>row_num\<close> column), and no record of the input with the
  same id has a later timestamp.
\<close>

theorem dedupe_keeps_latest_per_key:
  assumes "''id'' \<in> set (columns df)" and "''timestamp'' \<in> set (columns df)"
    and "mset (exchange e (rows df)) = mset (rows df)"
  shows "distinct (map (\<lambda>r. cell r ''id'') (rows (drop_duplicates e df))) \<and>
         (\<lambda>r. cell r ''id'') ` set (rows (drop_duplicates e df)) =
           (\<lambda>r. cell r ''id'') ` set (rows df) \<and>
         (\<forall>r\<in>set (rows (drop_duplicates e df)).
            \<exists>r0\<in>set (rows df). r = AList.delete ''row_num'' r0 \<and>
              (\<forall>r'\<in>set (rows df). cell r' ''id'' = cell r0 ''id'' \<longrightarrow>
                 \<not> val_less (cell r0 ''timestamp'') (cell r' ''timestamp'')))"
  using assms by (rule drop_duplicates_keys)

theorem dedupe_keeps_latest_per_key_witness:
  "distinct (map (\<lambda>r. cell r ''id'') (rows (drop_duplicates reversing_spark tied))) \<and>
   (\<lambda>r. cell r ''id'') ` set (rows (drop_duplicates reversing_spark tied)) = {IntV 1}"
proof -
  have "''id'' \<in> set (columns tied)" and "''timestamp'' \<in> set (columns tied)"
    by (simp_all add: tied_def event_schema_def columns_def)
  moreover have "mset (exchange reversing_spark (rows tied)) = mset (rows tied)"
    by (simp add: reversing_spark_def)
  ultimately show ?thesis
    using dedupe_keeps_latest_per_key [of tied reversing_spark]
    by (simp add: tied_def record_of_def cell_def)
qed

text \<open>
  Claim C3 asks for the same record on every run. Which of two records that tie on the
  timestamp survives is not fixed by the input: the
  window orders by the timestamp alone, and the record that leaves the exchange first is
  numbered 1. The same frame, under two arrangements of its rows, keeps different
  records.
\<close>

theorem tie_break_depends_on_exchange:
  "mset (exchange example_spark (rows tied)) = mset (rows tied) \<and>
   mset (exchange reversing_spark (rows tied)) = mset (rows tied) \<and>
   rows (drop_duplicates example_spark tied) =
     [record_of (IntV 1) 1710496800000000 ''first''] \<and>
   rows (drop_duplicates reversing_spark tied) =
     [record_of (IntV 1) 1710496800000000 ''second'']"
  by (simp add: tied_in_order tied_reversed) (simp add: example_spark_def reversing_spark_def)

text \<open>
  Claim C4. The count a finished run reports is the number of records of the frame it
  wrote, which is the number of records \<open>clean_data\<close> returned: the records that survive
  the deduplication and have an id (all the records read, when there is no id column).
  When the deduplication applies, that is the number of distinct ids of the input other
  than null. The count of the records read is reported apart.
\<close>

theorem row_count_counts_survivors:
  assumes "main e args = Inr run"
  shows "\<exists>raw cleaned.
           from_catalog e (source_database args) (source_table args) = Inr raw \<and>
           clean_data e raw = Inr cleaned \<and>
           raw_count run = length (rows raw) \<and>
           row_count run = length (rows cleaned) \<and>
           row_count run = length (rows (written run)) \<and>
           row_count run =
             (if ''id'' \<in> set (columns raw)
              then length (filter (\<lambda>r. cell r ''id'' \<noteq> Null) (rows (drop_duplicates e raw)))
              else length (rows raw)) \<and>
           (''id'' \<in> set (columns raw) \<and> ''timestamp'' \<in> set (columns raw) \<and>
            mset (exchange e (rows raw)) = mset (rows raw) \<longrightarrow>
              row_count run = card ((\<lambda>r. cell r ''id'') ` set (rows raw) - {Null}))"
proof -
  from assms obtain raw where raw:
      "from_catalog e (source_database args) (source_table args) = Inr raw"
    by (cases "from_catalog e (source_database args) (source_table args)")
       (simp_all add: main_def)
  with assms obtain cleaned where cleaned: "clean_data e raw = Inr cleaned"
    by (cases "clean_data e raw") (simp_all add: main_def)
  with assms raw obtain wp where
      wp: "add_partitions e (add_audit_columns e args cleaned) = Inr wp"
    by (cases "add_partitions e (add_audit_columns e args cleaned)") (simp_all add: main_def)
  with assms raw cleaned obtain n where n: "write_processed_data e args wp = Inr n"
    by (cases "write_processed_data e args wp") (simp_all add: main_def)
  from assms raw cleaned wp n
  have run: "run = \<lparr>raw_count = length (rows raw), written = wp, row_count = n\<rparr>"
    by (simp add: main_def)
  from n have nlen: "n = length (rows wp)"
    by (simp add: write_processed_data_def split: option.splits)
  from add_partitions_rows [OF wp]
  have "length (rows wp) = length (rows (add_audit_columns e args cleaned))"
    by (rule list_all2_lengthD)
  then have wlen: "length (rows wp) = length (rows cleaned)"
    by (simp add: length_rows_add_audit_columns)
  from cleaned obtain t where
      t: "trim_columns (string_cols e raw) (drop_duplicates e raw) = Inr t"
    by (cases "trim_columns (string_cols e raw) (drop_duplicates e raw)")
       (simp_all add: clean_data_def)
  from trim_columns_Inr [OF t]
  have rel: "list_all2
      (\<lambda>r' r. \<forall>c. cell r' c =
         (if c \<in> set (string_cols e raw) then trim_val (cell r c) else cell r c))
      (rows t) (rows (drop_duplicates e raw))"
    by simp
  have out: "rows cleaned = (if ''id'' \<in> set (columns raw)
      then filter (\<lambda>r. cell r ''id'' \<noteq> Null) (rows t) else rows t)"
    using cleaned t
    by (auto simp: clean_data_def na_drop_id_def where_rows_def split: if_splits)
  have count: "length (rows cleaned) =
      (if ''id'' \<in> set (columns raw)
       then length (filter (\<lambda>r. cell r ''id'' \<noteq> Null) (rows (drop_duplicates e raw)))
       else length (rows raw))"
  proof (cases "''id'' \<in> set (columns raw)")
    case True
    have "length (filter (\<lambda>r. cell r ''id'' \<noteq> Null) (rows t)) =
        length (filter (\<lambda>r. cell r ''id'' \<noteq> Null) (rows (drop_duplicates e raw)))"
      using rel by (rule filter_length_rel) (simp add: trim_val_Null)
    with True out show ?thesis by simp
  next
    case False
    then have "drop_duplicates e raw = raw" by (simp add: drop_duplicates_def)
    with rel have "length (rows t) = length (rows raw)"
      by (auto dest: list_all2_lengthD)
    with False out show ?thesis by simp
  qed
  have distinct_keys: "length (rows cleaned) = card ((\<lambda>r. cell r ''id'') ` set (rows raw) - {Null})"
    if "''id'' \<in> set (columns raw) \<and> ''timestamp'' \<in> set (columns raw) \<and>
        mset (exchange e (rows raw)) = mset (rows raw)"
    using that count drop_duplicates_count [of raw e] by simp
  from raw cleaned run nlen wlen count distinct_keys show ?thesis
    by (intro exI [of _ raw] exI [of _ cleaned]) simp
qed

theorem row_count_counts_survivors_witness:
  "\<exists>run. main catalog_spark example_args = Inr run \<and> raw_count run = 10 \<and> row_count run = 8"
proof -
  from ten_main obtain run where run: "main catalog_spark example_args = Inr run" ..
  from row_count_counts_survivors [OF run] obtain raw cleaned where
    raw: "from_catalog catalog_spark (source_database example_args)
            (source_table example_args) = Inr raw"
    and cleaned: "clean_data catalog_spark raw = Inr cleaned"
    and counts: "raw_count run = length (rows raw)" "row_count run = length (rows cleaned)"
    by blast
  from raw have "raw = ten_records"
    by (simp add: catalog_spark_def example_spark_def)
  with cleaned have "length (rows cleaned) = 8"
    by (auto simp: ten_cleaned)
  moreover from \<open>raw = ten_records\<close> have "length (rows raw) = 10"
    by (simp add: ten_records_def)
  ultimately have "raw_count run = 10 \<and> row_count run = 8"
    using counts by simp
  with run show ?thesis by blast
qed




text \<open>
  Claim C9. On a frame whose schema lacks the column \<^verbatim>\<open>id\<close> or the column
  \<^verbatim>\<open>timestamp\<close> the deduplication returns the frame it was given: the same records in
  the same order, whatever the engine.
\<close>

theorem dedupe_passes_through:
  assumes "''id'' \<notin> set (columns df) \<or> ''timestamp'' \<notin> set (columns df)"
  shows "drop_duplicates e df = df"
  using assms by (auto simp: drop_duplicates_def)

theorem dedupe_passes_through_witness:
  "drop_duplicates reversing_spark unstamped = unstamped"
  using dedupe_passes_through [of unstamped reversing_spark]
  by (simp add: unstamped_def columns_def)

end
